theory Spec2Isabelle
  imports Main "HOL-Library.Multiset"
begin

section \<open>JavaScript values used by the repository\<close>

text \<open>
  A parameter typed \<^verbatim>\<open>T | undefined | null\<close> has three shapes. The guards of the source
  (\<^verbatim>\<open>x === undefined || x === null\<close>, \<^verbatim>\<open>x ?? d\<close>) treat the first two alike.
  Strings are lists of code units; only code units below 256 are representable.
\<close>

datatype 'a optional = Undefined | Null | Defined 'a

text \<open>\<^verbatim>\<open>x ?? d\<close>: the right operand only when the left one is undefined or null.\<close>

fun nullish :: "'a optional \<Rightarrow> 'a \<Rightarrow> 'a" where
  "nullish Undefined d = d"
| "nullish Null d = d"
| "nullish (Defined v) d = v"

text \<open>
  \<^verbatim>\<open>s.split(sep)\<close> for a separator of one character: the pieces between the occurrences of
  the separator, empty pieces kept, never an empty array.
\<close>

fun split_on :: "char \<Rightarrow> string \<Rightarrow> string list" where
  "split_on sep [] = [[]]"
| "split_on sep (c # cs) =
     (if c = sep then [] # split_on sep cs
      else (case split_on sep cs of
              [] \<Rightarrow> [[c]]
            | t # ts \<Rightarrow> (c # t) # ts))"

text \<open>\<^verbatim>\<open>s.includes(c)\<close> for a needle of one character.\<close>

definition includes_chr :: "string \<Rightarrow> char \<Rightarrow> bool" where
  "includes_chr s c = (c \<in> set s)"

text \<open>\<^verbatim>\<open>xs.join(sep)\<close>.\<close>

fun join :: "string \<Rightarrow> string list \<Rightarrow> string" where
  "join sep [] = []"
| "join sep [x] = x"
| "join sep (x # y # ys) = x @ sep @ join sep (y # ys)"

text \<open>
  The character class \<^verbatim>\<open>[\s,;]\<close>: the white space of \<^verbatim>\<open>\s\<close> below code 256 (tab, line
  feed, vertical tab, form feed, carriage return, space, no-break space), the comma and
  the semicolon.
\<close>

definition is_sep :: "char \<Rightarrow> bool" where
  "is_sep c = (c \<in> set [CHR 0x09, CHR 0x0A, CHR 0x0B, CHR 0x0C, CHR 0x0D, CHR 0x20, CHR 0xA0,
                         CHR '','', CHR '';''])"

text \<open>
  \<^verbatim>\<open>s.split(/[\s,;]+/)\<close>: a separator is a maximal run of characters of the class. A run at
  the start or at the end of the string leaves an empty piece there, and the empty string
  gives one empty piece.
\<close>

function split_seps :: "string \<Rightarrow> string list" where
  "split_seps [] = [[]]"
| "split_seps (c # cs) =
     (if is_sep c then [] # split_seps (dropWhile is_sep cs)
      else (case split_seps cs of
              [] \<Rightarrow> [[c]]
            | t # ts \<Rightarrow> (c # t) # ts))"
  by pat_completeness auto
termination
  by (relation "measure length") (auto simp: length_dropWhile_le less_Suc_eq_le)

section \<open>Data model\<close>

text \<open>
  A luxon \<^verbatim>\<open>DateTime\<close> is a number of milliseconds since the epoch;
  \<^verbatim>\<open>toUnixInteger\<close> is the number of whole seconds, rounded down.
\<close>

datatype DateTime = DateTime (millis: int)


text \<open>
  Modelled from the spec: the \<^verbatim>\<open>Quote\<close> model class (\<^verbatim>\<open>#models/quote\<close>) is not among the
  sources. Its columns are those of the spec's data model: a unique integer id, the
  content, the author's key and the two timestamps. The content is the stored byte
  string, so \<^verbatim>\<open>LENGTH(content)\<close> is its \<open>length\<close>. The tag and the author carry the columns
  the repository filters on.
\<close>

record Quote =
  qid :: int
  content :: string
  author_id :: int
  created_at :: DateTime
  updated_at :: DateTime

record Tag =
  tag_id :: int
  tag_name :: string

record Author =
  author_key :: int
  author_name :: string
  author_slug :: string

text \<open>
  The tables one connection sees: the three entity tables, the pivot table of the
  many-to-many relation (quote id, tag id), and the next value of the auto-increment
  key of the quotes table.
\<close>

record store =
  quote_rows :: "Quote list"
  tag_rows :: "Tag list"
  author_rows :: "Author list"
  quote_tag :: "(int \<times> int) list"
  quote_seq :: int

section \<open>Query builder\<close>

text \<open>
  A related row, as the callback of \<^verbatim>\<open>whereHas\<close> sees it: its columns by name.
\<close>

type_synonym row = "string \<Rightarrow> string option"

datatype connective = And | Or

text \<open>\<^verbatim>\<open>builder.where(column, value)\<close> is \<open>Cond And\<close>, \<^verbatim>\<open>builder.orWhere(column, value)\<close>
  is \<open>Cond Or\<close>.\<close>

datatype cond = Cond connective string string

datatype direction = GE | LE

text \<open>
  The clauses the repository adds to a query on the quotes table. \<open>WhereLength d n\<close> is
  the raw clause \<^verbatim>\<open>LENGTH(content) d n\<close>; \<open>WhereRaw\<close> carries the SQL text as written.
  The clauses of a query are combined by AND.
\<close>

datatype clause =
    WhereId int
  | WhereInId "int list"
  | WhereInContent "string list"
  | WhereLength direction int
  | WhereHas string "cond list"
  | WhereRaw string

type_synonym query = "clause list"

fun cond_sat :: "row \<Rightarrow> cond \<Rightarrow> bool" where
  "cond_sat r (Cond k col v) = (r col = Some v)"

text \<open>
  The conditions of one builder read as SQL does: the connective of the first condition
  is dropped, and AND binds tighter than OR. \<open>acc\<close> is the value of the conjunction
  being read.
\<close>

fun conds_from :: "row \<Rightarrow> bool \<Rightarrow> cond list \<Rightarrow> bool" where
  "conds_from r acc [] = acc"
| "conds_from r acc (Cond And col v # cs) = conds_from r (acc \<and> r col = Some v) cs"
| "conds_from r acc (Cond Or col v # cs) = (acc \<or> conds_from r (r col = Some v) cs)"

fun conds_hold :: "row \<Rightarrow> cond list \<Rightarrow> bool" where
  "conds_hold r [] = True"
| "conds_hold r (c # cs) = conds_from r (cond_sat r c) cs"

definition tag_row :: "Tag \<Rightarrow> row" where
  "tag_row t = map_of [(''name'', tag_name t)]"

definition author_row :: "Author \<Rightarrow> row" where
  "author_row a = map_of [(''name'', author_name a), (''slug'', author_slug a)]"

text \<open>The rows a quote is related to: its tags through the pivot table, its author.\<close>

definition tags_of :: "store \<Rightarrow> Quote \<Rightarrow> Tag list" where
  "tags_of s q =
     concat (map (\<lambda>p. if fst p = qid q then filter (\<lambda>t. tag_id t = snd p) (tag_rows s) else [])
                 (quote_tag s))"

definition author_of :: "store \<Rightarrow> Quote \<Rightarrow> Author list" where
  "author_of s q = filter (\<lambda>a. author_key a = author_id q) (author_rows s)"

definition related :: "store \<Rightarrow> string \<Rightarrow> Quote \<Rightarrow> row list" where
  "related s rel q =
     (if rel = ''tags'' then map tag_row (tags_of s q)
      else if rel = ''author'' then map author_row (author_of s q)
      else [])"

text \<open>
  When a row satisfies a clause. \<open>raw\<close> is the database's evaluation of a raw SQL
  condition on a row (the full-text engine for \<^verbatim>\<open>MATCH ... AGAINST\<close>); it is a parameter.
\<close>

fun clause_sat :: "(string \<Rightarrow> Quote \<Rightarrow> bool) \<Rightarrow> store \<Rightarrow> Quote \<Rightarrow> clause \<Rightarrow> bool" where
  "clause_sat raw s q (WhereId i) = (qid q = i)"
| "clause_sat raw s q (WhereInId is) = (qid q \<in> set is)"
| "clause_sat raw s q (WhereInContent cs) = (content q \<in> set cs)"
| "clause_sat raw s q (WhereLength GE n) = (int (length (content q)) \<ge> n)"
| "clause_sat raw s q (WhereLength LE n) = (int (length (content q)) \<le> n)"
| "clause_sat raw s q (WhereHas rel cs) = list_ex (\<lambda>r. conds_hold r cs) (related s rel q)"
| "clause_sat raw s q (WhereRaw sql) = raw sql q"

definition query_sat :: "(string \<Rightarrow> Quote \<Rightarrow> bool) \<Rightarrow> store \<Rightarrow> query \<Rightarrow> Quote \<Rightarrow> bool" where
  "query_sat raw s qs q = list_all (clause_sat raw s q) qs"

text \<open>Running a query: the rows of the table that satisfy every clause, in table order.\<close>

definition exec :: "(string \<Rightarrow> Quote \<Rightarrow> bool) \<Rightarrow> store \<Rightarrow> query \<Rightarrow> Quote list" where
  "exec raw s qs = filter (query_sat raw s qs) (quote_rows s)"

section \<open>The filters of the quote repository\<close>

text \<open>
  Each filter adds its clauses to the query builder it is given; the model returns the
  builder after the call.
\<close>

definition filterLength :: "query \<Rightarrow> int optional \<Rightarrow> direction \<Rightarrow> query" where
  "filterLength query len dir =
     (case len of
        Undefined \<Rightarrow> query
      | Null \<Rightarrow> query
      | Defined n \<Rightarrow> query @ [WhereLength dir n])"


definition filterTags :: "query \<Rightarrow> string optional \<Rightarrow> query" where
  "filterTags query tags =
     (case tags of
        Undefined \<Rightarrow> query
      | Null \<Rightarrow> query
      | Defined ts \<Rightarrow>
          if includes_chr ts (CHR ''|'')
          then query @ [WhereHas ''tags'' (map (Cond Or ''name'') (split_on (CHR ''|'') ts))]
          else query @ map (\<lambda>tag. WhereHas ''tags'' [Cond And ''name'' tag]) (split_on (CHR '','') ts))"

text \<open>
  \<^verbatim>\<open>queryContent\<close>: the keywords are the pieces of the search string, each followed by
  \<^verbatim>\<open>*\<close>, joined by commas, placed between single quotes in the raw SQL.
\<close>

definition keywords_of :: "string \<Rightarrow> string" where
  "keywords_of search = join '','' (map (\<lambda>w. w @ ''*'') (split_seps search))"

definition match_against :: "string \<Rightarrow> string" where
  "match_against kw = ''MATCH (content) AGAINST('' @ [CHR 0x27] @ kw @ [CHR 0x27] @ '' IN BOOLEAN MODE)''"

definition queryContent :: "query \<Rightarrow> string optional \<Rightarrow> query" where
  "queryContent query search =
     (case search of
        Undefined \<Rightarrow> query
      | Null \<Rightarrow> query
      | Defined s \<Rightarrow> query @ [WhereRaw (match_against (keywords_of s))])"

section \<open>Connections, transactions and the environment\<close>

datatype error =
    E_ROW_NOT_FOUND
  | TransactionCompleted
  | DriverError string

text \<open>
  A call the program has started and does not await. Its statement reaches the database
  after the caller has gone on, and the caller never sees whether it failed.
  \<open>SaveCall original q trx\<close> is \<^verbatim>\<open>save()\<close> on the model \<open>q\<close> that was loaded as \<open>original\<close>
  through the client \<open>trx\<close>.
\<close>

datatype call = SaveCall Quote Quote "nat option"

text \<open>
  The database as the process sees it: the committed tables, the working copy of the
  global transaction while one is registered, the working copies of the transactions
  handed out explicitly, by handle, and the calls in flight, oldest first. A handle whose
  transaction is over has no copy.
\<close>

record database =
  committed :: store
  global_trx :: "store option"
  trxs :: "nat \<Rightarrow> store option"
  in_flight :: "call list"

text \<open>
  The tables a query reads: those of the given transaction, or else those of the default
  connection, which is the global transaction while one is open.
\<close>

definition client_store :: "nat option \<Rightarrow> database \<Rightarrow> error + store" where
  "client_store trx db =
     (case trx of
        None \<Rightarrow> Inr (case global_trx db of None \<Rightarrow> committed db | Some w \<Rightarrow> w)
      | Some t \<Rightarrow> (case trxs db t of None \<Rightarrow> Inl TransactionCompleted | Some w \<Rightarrow> Inr w))"

text \<open>A statement that changes the tables, sent through the same choice of client.\<close>

definition client_write :: "nat option \<Rightarrow> (store \<Rightarrow> store) \<Rightarrow> database \<Rightarrow> error + database" where
  "client_write trx f db =
     (case trx of
        None \<Rightarrow>
          (case global_trx db of
             None \<Rightarrow> Inr (db\<lparr>committed := f (committed db)\<rparr>)
           | Some w \<Rightarrow> Inr (db\<lparr>global_trx := Some (f w)\<rparr>))
      | Some t \<Rightarrow>
          (case trxs db t of
             None \<Rightarrow> Inl TransactionCompleted
           | Some w \<Rightarrow> Inr (db\<lparr>trxs := (trxs db)(t \<mapsto> f w)\<rparr>)))"

text \<open>
  What the code does not decide: how the database evaluates a raw SQL condition, the
  value \<^verbatim>\<open>RAND()\<close> takes at the n-th row of a result, the current time, the collation
  behind \<^verbatim>\<open>localeCompare\<close>, and whether the statement that deletes a quote fails (with
  which error).
\<close>

record env =
  raw_sql :: "string \<Rightarrow> Quote \<Rightarrow> bool"
  rand :: "nat \<Rightarrow> nat"
  now :: DateTime
  localeCompare :: "string \<Rightarrow> string \<Rightarrow> int"
  delete_fault :: "error option"

section \<open>Quote repository\<close>

text \<open>\<^verbatim>\<open>query.first()\<close> and \<^verbatim>\<open>query.firstOrFail()\<close> on the rows a query selects.\<close>

definition first :: "Quote list \<Rightarrow> Quote option" where
  "first rows = (case rows of [] \<Rightarrow> None | r # rs \<Rightarrow> Some r)"

definition firstOrFail :: "Quote list \<Rightarrow> error + Quote" where
  "firstOrFail rows = (case rows of [] \<Rightarrow> Inl E_ROW_NOT_FOUND | r # rs \<Rightarrow> Inr r)"

text \<open>
  Modelled from the spec: the scope \<^verbatim>\<open>queryBasicRelationships\<close> that \<^verbatim>\<open>withRelations\<close>
  switches on belongs to the absent model class; it loads the related rows onto the
  result and adds no clause. These are the options of \<^verbatim>\<open>getById\<close>; a field left out is
  \<open>None\<close> and takes its default.
\<close>

record GetByIdOptions =
  withRelations :: "bool option"
  findOrFail :: "bool option"
  transactions :: "nat option"

definition getById :: "env \<Rightarrow> int \<Rightarrow> GetByIdOptions \<Rightarrow> database \<Rightarrow> error + Quote option" where
  "getById e ident options db =
     (let fail = (case findOrFail options of None \<Rightarrow> True | Some b \<Rightarrow> b);
          query = [WhereId ident]
      in case client_store (transactions options) db of
           Inl err \<Rightarrow> Inl err
         | Inr s \<Rightarrow>
             if fail
             then (case firstOrFail (exec (raw_sql e) s query) of
                     Inl err \<Rightarrow> Inl err
                   | Inr q \<Rightarrow> Inr (Some q))
             else Inr (first (exec (raw_sql e) s query)))"

text \<open>
  \<^verbatim>\<open>Partial<UpdateQuoteRequest>\<close>: the one field the repository reads.
\<close>

record UpdateQuoteRequest =
  upd_content :: "string optional"

text \<open>\<^verbatim>\<open>quote.merge({ content })\<close> sets the attribute on the model.\<close>

definition merge :: "Quote \<Rightarrow> string \<Rightarrow> Quote" where
  "merge q c = q\<lparr>content := c\<rparr>"

text \<open>
  Modelled from the spec: the model class, which would declare the columns that \<^verbatim>\<open>save\<close>
  sets by itself, is not among the sources; the spec has the quote mutated on its content
  only. \<^verbatim>\<open>save()\<close> compares the model with the row it was loaded from: when nothing
  differs it sends no statement, otherwise it writes the changed attribute, here the
  content, to the rows with the model's id.
\<close>

definition save :: "Quote \<Rightarrow> Quote \<Rightarrow> store \<Rightarrow> store" where
  "save original q s =
     (if content q = content original then s
      else s\<lparr>quote_rows :=
               map (\<lambda>r. if qid r = qid q then r\<lparr>content := content q\<rparr> else r) (quote_rows s)\<rparr>)"

text \<open>
  A call in flight reaches the database: its statement runs through the client of the
  call; if it fails, the tables stay as they are and nobody is told. \<open>settle\<close> lets
  every call in flight reach the database, oldest first.
\<close>

fun run_call :: "call \<Rightarrow> database \<Rightarrow> database" where
  "run_call (SaveCall original q trx) db =
     (case client_write trx (save original q) db of
        Inl err \<Rightarrow> db
      | Inr db' \<Rightarrow> db')"

definition settle :: "database \<Rightarrow> database" where
  "settle db = foldl (\<lambda>d c. run_call c d) (db\<lparr>in_flight := []\<rparr>) (in_flight db)"

text \<open>
  \<^verbatim>\<open>update\<close>: the source calls \<^verbatim>\<open>save()\<close> on the merged model and does not await it, so
  \<^verbatim>\<open>update\<close> returns the merged model with the call in flight and the tables as they
  were.
\<close>

definition update ::
  "env \<Rightarrow> int \<Rightarrow> UpdateQuoteRequest \<Rightarrow> nat option \<Rightarrow> database \<Rightarrow> (error + Quote option) \<times> database" where
  "update e ident input trx db =
     (case getById e ident \<lparr>withRelations = None, findOrFail = None, transactions = trx\<rparr> db of
        Inl err \<Rightarrow> (Inl err, db)
      | Inr None \<Rightarrow> (Inr None, db)
      | Inr (Some quote) \<Rightarrow>
          (let quote' = merge quote (nullish (upd_content input) (content quote))
           in (Inr (Some quote'), db\<lparr>in_flight := in_flight db @ [SaveCall quote quote' trx]\<rparr>)))"

text \<open>\<^verbatim>\<open>quote.delete()\<close>: the rows with the model's id leave the table, unless the statement fails.\<close>

definition model_delete :: "env \<Rightarrow> Quote \<Rightarrow> nat option \<Rightarrow> database \<Rightarrow> error + database" where
  "model_delete e q trx db =
     (case delete_fault e of
        Some err \<Rightarrow> Inl err
      | None \<Rightarrow> client_write trx (\<lambda>s. s\<lparr>quote_rows := filter (\<lambda>r. qid r \<noteq> qid q) (quote_rows s)\<rparr>) db)"

definition delete ::
  "env \<Rightarrow> int \<Rightarrow> nat option \<Rightarrow> database \<Rightarrow> (error + Quote option) \<times> database" where
  "delete e ident trx db =
     (case getById e ident \<lparr>withRelations = None, findOrFail = None, transactions = trx\<rparr> db of
        Inl err \<Rightarrow> (Inl err, db)
      | Inr None \<Rightarrow> (Inr None, db)
      | Inr (Some quote) \<Rightarrow>
          (case model_delete e quote trx db of
             Inl err \<Rightarrow> (Inl err, db)
           | Inr db' \<Rightarrow> (Inr (Some quote), db')))"






subsection \<open>Random quotes\<close>

datatype OrderEnum = ASC | DESC

text \<open>
  Modelled from the spec: the request types (\<^verbatim>\<open>#requests/quotes\<close>) are not among the
  sources. \<^verbatim>\<open>sortBy\<close> names a column of the quote; the filters are optional. The
  field \<^verbatim>\<open>query\<close> of the request is \<open>search\<close> here.
\<close>

datatype sort_field = SortId | SortContent | SortAuthorId | SortCreatedAt | SortUpdatedAt

record GetRandomQuotesRequest =
  minLength :: "int optional"
  maxLength :: "int optional"
  author :: "string optional"
  tags :: "string optional"
  search :: "string optional"
  sortBy :: sort_field
  order :: OrderEnum
  limit :: nat










section \<open>Delete quote service\<close>

text \<open>
  \<^verbatim>\<open>handle\<close> calls \<^verbatim>\<open>db.beginGlobalTransaction()\<close>, \<^verbatim>\<open>db.commitGlobalTransaction()\<close> and
  \<^verbatim>\<open>db.rollbackGlobalTransaction()\<close> without awaiting them, around an awaited delete and an
  awaited detach. What reaches the database, and in which transaction, depends on how
  the three calls interleave with the statements of the delete and the detach; the
  working copies above describe one client at a time and give no meaning to such an
  interleaving, so \<^verbatim>\<open>handle\<close> has no definition here.
\<close>

section \<open>Properties the theorems are stated with\<close>




text \<open>The names of the tags a quote is associated with.\<close>

definition tag_names :: "store \<Rightarrow> Quote \<Rightarrow> string set" where
  "tag_names s q = tag_name ` set (tags_of s q)"


text \<open>
  Splitting on runs, said without the regular expression: the string is its pieces
  with a run of separators between each two neighbours. \<open>interleave\<close> puts pieces and
  runs back together; \<open>sep_runs\<close> lists the maximal runs of separators of a string.
\<close>

fun interleave :: "'a list list \<Rightarrow> 'a list list \<Rightarrow> 'a list" where
  "interleave [] rs = []"
| "interleave (t # ts) [] = t"
| "interleave (t # ts) (r # rs) = t @ r @ interleave ts rs"

function sep_runs :: "string \<Rightarrow> string list" where
  "sep_runs [] = []"
| "sep_runs (c # cs) =
     (if is_sep c then (c # takeWhile is_sep cs) # sep_runs (dropWhile is_sep cs)
      else sep_runs cs)"
  by pat_completeness auto
termination
  by (relation "measure length") (auto simp: length_dropWhile_le less_Suc_eq_le)

text \<open>
  \<open>ts\<close> are the pieces of \<open>s\<close> split on runs of separators: \<open>s\<close> is the pieces with
  non-empty runs of separators in between, no piece contains a separator, and only the
  first and the last piece may be empty, so every run is maximal.
\<close>

definition splits_on_runs :: "string \<Rightarrow> string list \<Rightarrow> bool" where
  "splits_on_runs s ts =
     (\<exists>rs. interleave ts rs = s \<and> length ts = Suc (length rs) \<and>
           (\<forall>r \<in> set rs. r \<noteq> [] \<and> (\<forall>c \<in> set r. is_sep c)) \<and>
           (\<forall>t \<in> set ts. \<forall>c \<in> set t. \<not> is_sep c) \<and>
           (\<forall>t \<in> set (butlast (tl ts)). t \<noteq> []))"

section \<open>Sample data\<close>

text \<open>A collation for the examples: strings compared code unit by code unit.\<close>

fun code_compare :: "string \<Rightarrow> string \<Rightarrow> int" where
  "code_compare [] [] = 0"
| "code_compare [] (y # ys) = - 1"
| "code_compare (x # xs) [] = 1"
| "code_compare (x # xs) (y # ys) =
     (if (of_char x :: nat) < of_char y then - 1
      else if (of_char y :: nat) < of_char x then 1
      else code_compare xs ys)"

definition quote1 :: Quote where
  "quote1 = \<lparr>qid = 1, content = ''carpe diem'', author_id = 1,
             created_at = DateTime 3000, updated_at = DateTime 9000\<rparr>"

definition quote2 :: Quote where
  "quote2 = \<lparr>qid = 2, content = ''veni'', author_id = 2,
             created_at = DateTime 1000, updated_at = DateTime 5000\<rparr>"

definition quote3 :: Quote where
  "quote3 = \<lparr>qid = 3, content = ''alea iacta est'', author_id = 2,
             created_at = DateTime 2000, updated_at = DateTime 7000\<rparr>"

text \<open>Quote 1 has the tags a and b, quote 2 the tag a, quote 3 the tag c.\<close>

definition store0 :: store where
  "store0 =
     \<lparr>quote_rows = [quote1, quote2, quote3],
      tag_rows = [\<lparr>tag_id = 1, tag_name = ''a''\<rparr>, \<lparr>tag_id = 2, tag_name = ''b''\<rparr>,
                  \<lparr>tag_id = 3, tag_name = ''c''\<rparr>],
      author_rows = [\<lparr>author_key = 1, author_name = ''Horace'', author_slug = ''horace''\<rparr>,
                     \<lparr>author_key = 2, author_name = ''Caesar'', author_slug = ''caesar''\<rparr>],
      quote_tag = [(1, 1), (1, 2), (2, 1), (3, 3)],
      quote_seq = 4\<rparr>"

definition db0 :: database where
  "db0 = \<lparr>committed = store0, global_trx = None, trxs = (\<lambda>t. None), in_flight = []\<rparr>"

text \<open>A database with one explicit transaction open, on a copy of the same tables.\<close>

definition db1 :: database where
  "db1 = \<lparr>committed = store0, global_trx = None,
           trxs = (\<lambda>t. if t = 0 then Some store0 else None), in_flight = []\<rparr>"

definition env0 :: env where
  "env0 = \<lparr>raw_sql = (\<lambda>sql q. True), rand = (\<lambda>n. 10 - n), now = DateTime 12000,
           localeCompare = code_compare, delete_fault = None\<rparr>"



section \<open>Splitting and joining\<close>

lemma split_on_not_Nil: "split_on sep s \<noteq> []"
  by (induction s) (auto split: list.splits)

lemma join_split_on: "join [sep] (split_on sep s) = s"
proof (induction s)
  case Nil
  then show ?case by simp
next
  case (Cons c cs)
  obtain t ts where ts: "split_on sep cs = t # ts"
    using split_on_not_Nil [of sep cs] by (cases "split_on sep cs") auto
  show ?case
  proof (cases "c = sep")
    case True
    with ts Cons show ?thesis by simp
  next
    case False
    with ts Cons show ?thesis by (cases ts) auto
  qed
qed

lemma split_on_pieces: "t \<in> set (split_on sep s) \<Longrightarrow> sep \<notin> set t"
  by (induction s arbitrary: t) (auto split: if_splits list.splits)

lemma split_on_absent: "sep \<notin> set s \<Longrightarrow> split_on sep s = [s]"
  by (induction s) auto

section \<open>What the clauses select\<close>

lemma conds_from_Or:
  "conds_from r acc (map (Cond Or col) vs) = (acc \<or> (\<exists>v \<in> set vs. r col = Some v))"
  by (induction vs arbitrary: acc) auto

lemma conds_hold_Or:
  "vs \<noteq> [] \<Longrightarrow> conds_hold r (map (Cond Or col) vs) = (\<exists>v \<in> set vs. r col = Some v)"
  by (cases vs) (auto simp: conds_from_Or)

lemma related_tags: "related s ''tags'' q = map tag_row (tags_of s q)"
  by (simp add: related_def)

lemma tag_row_name: "tag_row t ''name'' = Some (tag_name t)"
  by (simp add: tag_row_def)

lemma query_sat_append:
  "query_sat raw s (q1 @ q2) x = (query_sat raw s q1 x \<and> query_sat raw s q2 x)"
  by (simp add: query_sat_def)

lemma query_sat_single: "query_sat raw s [c] x = clause_sat raw s x c"
  by (simp add: query_sat_def)

lemma exec_append:
  "exec raw s (q1 @ q2) = filter (query_sat raw s q2) (exec raw s q1)"
  by (auto simp: exec_def query_sat_append intro: filter_cong)

lemma has_any_tag:
  "vs \<noteq> [] \<Longrightarrow> clause_sat raw s x (WhereHas ''tags'' (map (Cond Or ''name'') vs))
     = (\<exists>v \<in> set vs. v \<in> tag_names s x)"
  by (auto simp: related_tags list_ex_iff conds_hold_Or tag_row_name tag_names_def)

lemma has_all_tags:
  "query_sat raw s (map (\<lambda>tag. WhereHas ''tags'' [Cond And ''name'' tag]) vs) x
     = (\<forall>v \<in> set vs. v \<in> tag_names s x)"
  by (induction vs) (auto simp: query_sat_def related_tags list_ex_iff tag_row_name tag_names_def)

lemma store0_rows: "quote_rows store0 = [quote1, quote2, quote3]"
  by (simp add: store0_def)

lemma store0_tags:
  "tag_names store0 quote1 = {''a'', ''b''}" "tag_names store0 quote2 = {''a''}"
  "tag_names store0 quote3 = {''c''}"
  by (auto simp: tag_names_def tags_of_def store0_def quote1_def quote2_def quote3_def)

section \<open>The tag filter\<close>

lemma filterTags_sat:
  "query_sat raw s (filterTags q (Defined ts)) x =
     (query_sat raw s q x \<and>
      (if CHR ''|'' \<in> set ts
       then \<exists>t \<in> set (split_on (CHR ''|'') ts). t \<in> tag_names s x
       else \<forall>t \<in> set (split_on (CHR '','') ts). t \<in> tag_names s x))"
  by (simp add: filterTags_def includes_chr_def query_sat_append has_all_tags
      query_sat_single has_any_tag split_on_not_Nil del: clause_sat.simps)

text \<open>
  C3. A tags string without a pipe is split at its commas and the query keeps the quotes
  that have every one of the listed tags, through one clause on the relation for each
  tag; a tags string with a pipe is split at its pipes and the query keeps the quotes
  that have at least one of the listed tags, through a single clause on the relation.
\<close>

theorem filterTags_all_or_any:
  "exec raw s (filterTags q (Defined ts)) =
     filter (\<lambda>x. if CHR ''|'' \<in> set ts
                 then \<exists>t \<in> set (split_on (CHR ''|'') ts). t \<in> tag_names s x
                 else \<forall>t \<in> set (split_on (CHR '','') ts). t \<in> tag_names s x)
            (exec raw s q) \<and>
   length (filterTags q (Defined ts)) =
     length q + (if CHR ''|'' \<in> set ts then 1 else length (split_on (CHR '','') ts))"
proof
  have "exec raw s (filterTags q (Defined ts)) =
          filter (query_sat raw s (filterTags q (Defined ts))) (quote_rows s)"
    by (simp add: exec_def)
  also have "\<dots> = filter (\<lambda>x. query_sat raw s q x \<and>
                 (if CHR ''|'' \<in> set ts
                  then \<exists>t \<in> set (split_on (CHR ''|'') ts). t \<in> tag_names s x
                  else \<forall>t \<in> set (split_on (CHR '','') ts). t \<in> tag_names s x)) (quote_rows s)"
    by (rule filter_cong [OF refl]) (rule filterTags_sat)
  finally show "exec raw s (filterTags q (Defined ts)) =
     filter (\<lambda>x. if CHR ''|'' \<in> set ts
                 then \<exists>t \<in> set (split_on (CHR ''|'') ts). t \<in> tag_names s x
                 else \<forall>t \<in> set (split_on (CHR '','') ts). t \<in> tag_names s x)
            (exec raw s q)"
    by (simp add: exec_def conj_commute)
next
  show "length (filterTags q (Defined ts)) =
     length q + (if CHR ''|'' \<in> set ts then 1 else length (split_on (CHR '','') ts))"
    by (simp add: filterTags_def includes_chr_def)
qed

theorem filterTags_all_or_any_witness:
  "exec (raw_sql env0) store0 (filterTags [] (Defined ''a,b'')) = [quote1] \<and>
   length (filterTags [] (Defined ''a,b'')) = 2 \<and>
   exec (raw_sql env0) store0 (filterTags [] (Defined ''b|c'')) = [quote1, quote3] \<and>
   length (filterTags [] (Defined ''b|c'')) = 1"
proof -
  have e: "exec raw store0 [] = [quote1, quote2, quote3]" for raw
    by (simp add: exec_def query_sat_def store0_rows)
  have 1: "CHR ''|'' \<notin> set ''a,b''" "CHR ''|'' \<in> set ''b|c''" by simp_all
  have 2: "split_on (CHR '','') ''a,b'' = [''a'', ''b'']"
    "split_on (CHR ''|'') ''b|c'' = [''b'', ''c'']"
    by simp_all
  show ?thesis
    using filterTags_all_or_any [of "raw_sql env0" store0 "[]" "''a,b''"]
          filterTags_all_or_any [of "raw_sql env0" store0 "[]" "''b|c''"]
    by (simp add: e 1 2 store0_tags)
qed

text \<open>
  C10. A tags string that contains a pipe is handled in OR mode only: it is split at the
  pipes and nowhere else, so joining the names with pipes gives the string back and a
  comma stays inside its name. For \<^verbatim>\<open>a,b|c\<close> the names are \<^verbatim>\<open>a,b\<close> and \<^verbatim>\<open>c\<close>.
\<close>

theorem filterTags_pipe_precedence:
  "(CHR ''|'' \<in> set ts \<longrightarrow>
      filterTags q (Defined ts) =
        q @ [WhereHas ''tags'' (map (Cond Or ''name'') (split_on (CHR ''|'') ts))] \<and>
      join ''|'' (split_on (CHR ''|'') ts) = ts \<and>
      (\<forall>t \<in> set (split_on (CHR ''|'') ts). CHR ''|'' \<notin> set t)) \<and>
   filterTags q (Defined ''a,b|c'') =
     q @ [WhereHas ''tags'' [Cond Or ''name'' ''a,b'', Cond Or ''name'' ''c'']]"
proof (intro conjI impI)
  assume p: "CHR ''|'' \<in> set ts"
  then show "filterTags q (Defined ts) =
        q @ [WhereHas ''tags'' (map (Cond Or ''name'') (split_on (CHR ''|'') ts))]"
    by (simp add: filterTags_def includes_chr_def)
  show "join ''|'' (split_on (CHR ''|'') ts) = ts"
    by (rule join_split_on)
  show "\<forall>t \<in> set (split_on (CHR ''|'') ts). CHR ''|'' \<notin> set t"
    by (blast dest: split_on_pieces)
next
  show "filterTags q (Defined ''a,b|c'') =
     q @ [WhereHas ''tags'' [Cond Or ''name'' ''a,b'', Cond Or ''name'' ''c'']]"
    by (simp add: filterTags_def includes_chr_def)
qed

theorem filterTags_pipe_precedence_witness:
  "CHR ''|'' \<in> set ''x,y|z,w|v'' \<and>
   filterTags [] (Defined ''x,y|z,w|v'') =
     [WhereHas ''tags'' [Cond Or ''name'' ''x,y'', Cond Or ''name'' ''z,w'', Cond Or ''name'' ''v'']]"
proof -
  have p: "CHR ''|'' \<in> set ''x,y|z,w|v''" by simp
  have sp: "split_on (CHR ''|'') ''x,y|z,w|v'' = [''x,y'', ''z,w'', ''v'']" by simp
  show ?thesis
    using filterTags_pipe_precedence [of "''x,y|z,w|v''" "[]"] p
    by (simp add: sp)
qed

section \<open>The length filter\<close>

lemma query_sat_fun: "query_sat raw s qs = (\<lambda>x. list_all (clause_sat raw s x) qs)"
  by (rule ext) (simp add: query_sat_def)

text \<open>
  C4. With both bounds defined the query keeps exactly the quotes whose content length L
  satisfies m \<le> L and L \<le> M; each bound alone is inclusive too; an undefined or null
  bound adds no clause and leaves the query as it was.
\<close>

theorem filterLength_inclusive:
  "exec raw s (filterLength (filterLength q (Defined m) GE) (Defined M) LE) =
     filter (\<lambda>x. m \<le> int (length (content x)) \<and> int (length (content x)) \<le> M) (exec raw s q) \<and>
   exec raw s (filterLength q (Defined m) GE) =
     filter (\<lambda>x. m \<le> int (length (content x))) (exec raw s q) \<and>
   exec raw s (filterLength q (Defined M) LE) =
     filter (\<lambda>x. int (length (content x)) \<le> M) (exec raw s q) \<and>
   filterLength q Undefined d = q \<and> filterLength q Null d = q"
  by (simp add: filterLength_def exec_append query_sat_fun conj_commute)

theorem filterLength_inclusive_example:
  "exec (raw_sql env0) store0 (filterLength (filterLength [] (Defined 4) GE) (Defined 10) LE) = [quote1, quote2]"
  using filterLength_inclusive [of "raw_sql env0" store0 "[]" 4 10]
  by (simp add: exec_def query_sat_def store0_rows quote1_def quote2_def quote3_def)

section \<open>Lookups by id\<close>

lemma exec_WhereId: "exec raw s [WhereId i] = filter (\<lambda>r. qid r = i) (quote_rows s)"
  by (simp add: exec_def query_sat_fun)

lemma no_row_with_id:
  "\<forall>r \<in> set (quote_rows s). qid r \<noteq> i \<Longrightarrow> exec raw s [WhereId i] = []"
  by (simp add: exec_WhereId)

lemma getById_missing:
  assumes "client_store (transactions options) db = Inr s"
    and "\<forall>r \<in> set (quote_rows s). qid r \<noteq> ident"
  shows "getById e ident options db =
           (if findOrFail options = Some False then Inr None else Inl E_ROW_NOT_FOUND)"
  using assms
  by (auto simp: getById_def no_row_with_id firstOrFail_def first_def split: option.splits)

lemma getById_found:
  assumes "client_store (transactions options) db = Inr s"
    and "filter (\<lambda>r. qid r = ident) (quote_rows s) = q # rest"
  shows "getById e ident options db = Inr (Some q)"
  using assms
  by (auto simp: getById_def Let_def exec_WhereId firstOrFail_def first_def split: option.splits)

lemma db0_store: "client_store None db0 = Inr store0"
  by (simp add: client_store_def db0_def)

lemma db1_store: "client_store (Some 0) db1 = Inr store0" "client_store None db1 = Inr store0"
  by (simp_all add: client_store_def db1_def)

lemma store0_ids: "map qid (quote_rows store0) = [1, 2, 3]"
  by (simp add: store0_def quote1_def quote2_def quote3_def)

lemma store0_no_7: "\<forall>r \<in> set (quote_rows store0). qid r \<noteq> 7"
  by (simp add: store0_def quote1_def quote2_def quote3_def)

text \<open>
  C7. When no quote has the id, \<^verbatim>\<open>getById\<close> fails with the not-found error if
  \<^verbatim>\<open>findOrFail\<close> is left out (its default is true) or is true, and returns null without
  failing if \<^verbatim>\<open>findOrFail\<close> is false.
\<close>

theorem getById_not_found:
  assumes "client_store (transactions options) db = Inr s"
    and "\<forall>r \<in> set (quote_rows s). qid r \<noteq> ident"
  shows "(findOrFail options = None \<or> findOrFail options = Some True
            \<longrightarrow> getById e ident options db = Inl E_ROW_NOT_FOUND) \<and>
         (findOrFail options = Some False \<longrightarrow> getById e ident options db = Inr None)"
  using getById_missing [OF assms] by auto

theorem getById_not_found_witness:
  "getById env0 7 \<lparr>withRelations = None, findOrFail = None, transactions = None\<rparr> db0
     = Inl E_ROW_NOT_FOUND \<and>
   getById env0 7 \<lparr>withRelations = None, findOrFail = Some True, transactions = None\<rparr> db0
     = Inl E_ROW_NOT_FOUND \<and>
   getById env0 7 \<lparr>withRelations = None, findOrFail = Some False, transactions = None\<rparr> db0
     = Inr None"
  using getById_not_found [of "\<lparr>withRelations = None, findOrFail = None, transactions = None\<rparr>" db0 store0 7 env0]
    getById_not_found [of "\<lparr>withRelations = None, findOrFail = Some True, transactions = None\<rparr>" db0 store0 7 env0]
    getById_not_found [of "\<lparr>withRelations = None, findOrFail = Some False, transactions = None\<rparr>" db0 store0 7 env0]
    db0_store store0_no_7
  by simp

section \<open>Update and delete\<close>

text \<open>
  C2, as the code has it. When no quote has the id, \<^verbatim>\<open>update\<close> and \<^verbatim>\<open>delete\<close> fail
  with the not-found error of \<^verbatim>\<open>getById\<close>, which they call without \<^verbatim>\<open>findOrFail\<close>, and
  leave the database as it was; neither returns null.
\<close>

theorem update_delete_missing:
  assumes "client_store trx db = Inr s"
    and "\<forall>r \<in> set (quote_rows s). qid r \<noteq> ident"
  shows "update e ident input trx db = (Inl E_ROW_NOT_FOUND, db) \<and>
         delete e ident trx db = (Inl E_ROW_NOT_FOUND, db)"
proof -
  have "getById e ident \<lparr>withRelations = None, findOrFail = None, transactions = trx\<rparr> db
          = Inl E_ROW_NOT_FOUND"
    using getById_missing [of "\<lparr>withRelations = None, findOrFail = None, transactions = trx\<rparr>" db s ident e]
      assms by simp
  then show ?thesis by (simp add: update_def delete_def)
qed

theorem update_delete_missing_witness:
  "update env0 7 \<lparr>upd_content = Defined ''x''\<rparr> None db0 = (Inl E_ROW_NOT_FOUND, db0) \<and>
   delete env0 7 (Some 0) db1 = (Inl E_ROW_NOT_FOUND, db1)"
  using update_delete_missing [of None db0 store0 7 env0 "\<lparr>upd_content = Defined ''x''\<rparr>"]
    update_delete_missing [of "Some 0" db1 store0 7 env0]
    db0_store db1_store store0_no_7
  by simp

text \<open>
  The claim as first stated, that both return null without an error, fails on the
  sample database at the id 7, which no quote has.
\<close>

theorem update_delete_missing_counterexample:
  "map qid (quote_rows store0) = [1, 2, 3] \<and>
   client_store None db0 = Inr store0 \<and>
   update env0 7 \<lparr>upd_content = Defined ''x''\<rparr> None db0 \<noteq> (Inr None, db0) \<and>
   delete env0 7 None db0 \<noteq> (Inr None, db0) \<and>
   fst (update env0 7 \<lparr>upd_content = Defined ''x''\<rparr> None db0) = Inl E_ROW_NOT_FOUND \<and>
   fst (delete env0 7 None db0) = Inl E_ROW_NOT_FOUND"
proof -
  have g: "getById env0 7 \<lparr>withRelations = None, findOrFail = None, transactions = None\<rparr> db0
          = Inl E_ROW_NOT_FOUND"
    by (simp add: getById_def db0_store exec_WhereId store0_def quote1_def quote2_def quote3_def
        firstOrFail_def)
  show ?thesis
    by (simp add: store0_ids db0_store update_def delete_def g)
qed

lemma client_write_store:
  assumes "client_store trx db = Inr s"
  shows "\<exists>db'. client_write trx f db = Inr db' \<and> client_store trx db' = Inr (f s) \<and>
           (case trx of
              None \<Rightarrow> trxs db' = trxs db
            | Some t \<Rightarrow> committed db' = committed db \<and> global_trx db' = global_trx db \<and>
                        trxs db' = (trxs db)(t \<mapsto> f s))"
  using assms
  by (auto simp: client_write_def client_store_def split: option.splits)

lemma client_write_id:
  assumes "client_store trx db = Inr s"
  shows "client_write trx (\<lambda>s. s) db = Inr db"
  using assms
  by (auto simp: client_write_def client_store_def map_upd_triv split: option.splits)

lemma save_rows:
  "map (\<lambda>r. r\<lparr>content := []\<rparr>) (quote_rows (save q q' s)) = map (\<lambda>r. r\<lparr>content := []\<rparr>) (quote_rows s) \<and>
   filter (\<lambda>r. qid r \<noteq> qid q') (quote_rows (save q q' s)) = filter (\<lambda>r. qid r \<noteq> qid q') (quote_rows s)"
proof (cases "content q' = content q")
  case True
  then show ?thesis by (simp add: save_def)
next
  case False
  have "map (\<lambda>r. r\<lparr>content := []\<rparr>) (map (\<lambda>r. if qid r = i then r\<lparr>content := c\<rparr> else r) rows)
          = map (\<lambda>r. r\<lparr>content := []\<rparr>) rows \<and>
        filter (\<lambda>r. qid r \<noteq> i) (map (\<lambda>r. if qid r = i then r\<lparr>content := c\<rparr> else r) rows)
          = filter (\<lambda>r. qid r \<noteq> i) rows" for i c and rows :: "Quote list"
    by (induction rows) auto
  with False show ?thesis by (simp add: save_def)
qed

lemma save_other_tables:
  "tag_rows (save q q' s) = tag_rows s \<and> author_rows (save q q' s) = author_rows s \<and>
   quote_tag (save q q' s) = quote_tag s \<and> quote_seq (save q q' s) = quote_seq s"
  by (simp add: save_def)

lemma rewritten_rows:
  "filter (\<lambda>r. qid r = i) (map (\<lambda>r. if qid r = i then r\<lparr>content := c\<rparr> else r) rows)
     = map (\<lambda>r. r\<lparr>content := c\<rparr>) (filter (\<lambda>r. qid r = i) rows)"
  by (induction rows) auto

text \<open>After the save, the first row with the id of the model is the model.\<close>

lemma save_hit:
  assumes "filter (\<lambda>r. qid r = qid q) (quote_rows s) = q # rest"
  shows "\<exists>rest'. filter (\<lambda>r. qid r = qid q) (quote_rows (save q (q\<lparr>content := c\<rparr>) s))
                  = q\<lparr>content := c\<rparr> # rest'"
proof (cases "c = content q")
  case True
  with assms show ?thesis by (simp add: save_def)
next
  case False
  with assms show ?thesis by (simp add: save_def rewritten_rows)
qed

lemma save_same: "save q (q\<lparr>content := content q\<rparr>) s = s"
  by (simp add: save_def)

lemma client_store_in_flight: "client_store trx (db\<lparr>in_flight := calls\<rparr>) = client_store trx db"
  by (cases trx) (simp_all add: client_store_def split: option.splits)

lemma settle_one:
  assumes "in_flight db = []"
  shows "settle (db\<lparr>in_flight := in_flight db @ [c]\<rparr>) = run_call c db"
proof -
  have e: "db\<lparr>in_flight := []\<rparr> = db" using assms by (cases db) simp
  show ?thesis by (simp add: settle_def assms e)
qed

text \<open>
  C9. For a quote that exists, \<^verbatim>\<open>update\<close> returns the quote with its content replaced
  by the content of the input when one is given and with its own content otherwise;
  every other field of the returned quote is as it was. It returns with the save in
  flight. Once the save has reached the database, the quote read back by its id is the
  returned one, every row keeps all its fields but the content, the rows with another
  id are untouched, and so are the other tables. When the content does not change, no
  table changes.
\<close>

theorem update_changes_only_content:
  assumes "client_store trx db = Inr s"
    and "filter (\<lambda>r. qid r = ident) (quote_rows s) = q # rest"
  shows "\<exists>c q' s'.
           c = (case upd_content input of Defined v \<Rightarrow> v | Undefined \<Rightarrow> content q | Null \<Rightarrow> content q) \<and>
           q' = q\<lparr>content := c\<rparr> \<and>
           update e ident input trx db =
             (Inr (Some q'), db\<lparr>in_flight := in_flight db @ [SaveCall q q' trx]\<rparr>) \<and>
           client_store trx (snd (update e ident input trx db)) = Inr s \<and>
           (in_flight db = [] \<longrightarrow>
              settle (snd (update e ident input trx db)) = run_call (SaveCall q q' trx) db) \<and>
           client_store trx (run_call (SaveCall q q' trx) db) = Inr s' \<and>
           getById e ident \<lparr>withRelations = None, findOrFail = None, transactions = trx\<rparr>
             (run_call (SaveCall q q' trx) db) = Inr (Some q') \<and>
           map (\<lambda>r. r\<lparr>content := []\<rparr>) (quote_rows s') = map (\<lambda>r. r\<lparr>content := []\<rparr>) (quote_rows s) \<and>
           filter (\<lambda>r. qid r \<noteq> ident) (quote_rows s') = filter (\<lambda>r. qid r \<noteq> ident) (quote_rows s) \<and>
           tag_rows s' = tag_rows s \<and> author_rows s' = author_rows s \<and>
           quote_tag s' = quote_tag s \<and> quote_seq s' = quote_seq s \<and>
           (c = content q \<longrightarrow> s' = s)"
proof -
  define c where "c = (case upd_content input of Defined v \<Rightarrow> v | Undefined \<Rightarrow> content q | Null \<Rightarrow> content q)"
  define q' where "q' = q\<lparr>content := c\<rparr>"
  let ?opts = "\<lparr>withRelations = None, findOrFail = None, transactions = trx\<rparr>"
  have n: "nullish (upd_content input) (content q) = c"
    by (cases "upd_content input") (simp_all add: c_def)
  have g: "getById e ident ?opts db = Inr (Some q)"
    using getById_found [of ?opts db s ident q rest e] assms by simp
  have qi: "qid q = ident"
  proof -
    have "q \<in> set (filter (\<lambda>r. qid r = ident) (quote_rows s))" using assms(2) by simp
    then show ?thesis by simp
  qed
  have u: "update e ident input trx db =
             (Inr (Some q'), db\<lparr>in_flight := in_flight db @ [SaveCall q q' trx]\<rparr>)"
    by (simp add: update_def g n merge_def q'_def Let_def)
  have at_return: "client_store trx (snd (update e ident input trx db)) = Inr s"
    by (simp add: u client_store_in_flight assms(1))
  have later: "in_flight db = [] \<longrightarrow>
      settle (snd (update e ident input trx db)) = run_call (SaveCall q q' trx) db"
  proof
    assume "in_flight db = []"
    then have "settle (db\<lparr>in_flight := in_flight db @ [SaveCall q q' trx]\<rparr>)
                 = run_call (SaveCall q q' trx) db"
      by (rule settle_one)
    then show "settle (snd (update e ident input trx db)) = run_call (SaveCall q q' trx) db"
      by (simp only: u snd_conv)
  qed
  obtain dbw where w: "client_write trx (save q q') db = Inr dbw"
    and st: "client_store trx dbw = Inr (save q q' s)"
    using client_write_store [OF assms(1), of "save q q'"] by blast
  have run: "run_call (SaveCall q q' trx) db = dbw"
    by (simp add: w)
  obtain rest' where hit: "filter (\<lambda>r. qid r = ident) (quote_rows (save q q' s)) = q' # rest'"
    using save_hit [of q s rest c] assms(2) qi unfolding q'_def by auto
  have reread: "getById e ident ?opts (run_call (SaveCall q q' trx) db) = Inr (Some q')"
    using getById_found [of ?opts dbw "save q q' s" ident q' rest' e] st hit run by simp
  have q'i: "qid q' = ident" using qi by (simp add: q'_def)
  have same: "save q q' s = s" if "c = content q"
    using that by (simp add: q'_def save_def)
  have st': "client_store trx (run_call (SaveCall q q' trx) db) = Inr (save q q' s)"
    using st by (simp only: run)
  show ?thesis
    using u at_return later st' reread save_rows [of q q' s] save_other_tables [of q q' s]
      q'i same
    by (intro exI [of _ c] exI [of _ q'] exI [of _ "save q q' s"])
       (simp add: c_def [symmetric] q'_def [symmetric] del: run_call.simps)
qed

lemma store0_find_2: "filter (\<lambda>r. qid r = 2) (quote_rows store0) = [quote2]"
  by (simp add: store0_def quote1_def quote2_def quote3_def)

theorem update_changes_only_content_witness:
  "update env0 2 \<lparr>upd_content = Defined ''vidi''\<rparr> None db0
     = (Inr (Some (quote2\<lparr>content := ''vidi''\<rparr>)),
        db0\<lparr>in_flight := [SaveCall quote2 (quote2\<lparr>content := ''vidi''\<rparr>) None]\<rparr>) \<and>
   quote_rows (committed (settle (snd (update env0 2 \<lparr>upd_content = Defined ''vidi''\<rparr> None db0))))
     = [quote1, quote2\<lparr>content := ''vidi''\<rparr>, quote3] \<and>
   fst (update env0 2 \<lparr>upd_content = Undefined\<rparr> None db0) = Inr (Some quote2) \<and>
   committed (settle (snd (update env0 2 \<lparr>upd_content = Undefined\<rparr> None db0))) = store0 \<and>
   fst (update env0 2 \<lparr>upd_content = Null\<rparr> (Some 0) db1) = Inr (Some quote2)"
proof -
  note f = store0_find_2
  have nf: "in_flight db0 = []" "in_flight db1 = []"
    by (simp_all add: db0_def db1_def)
  have c0: "committed db0 = store0" "global_trx db0 = None"
    by (simp_all add: db0_def)
  have ne: "content quote2 \<noteq> ''vidi''" "qid quote1 \<noteq> qid quote2" "qid quote3 \<noteq> qid quote2"
    by (simp_all add: quote1_def quote2_def quote3_def)
  have run: "quote_rows (committed (run_call (SaveCall quote2 (quote2\<lparr>content := ''vidi''\<rparr>) None) db0))
               = [quote1, quote2\<lparr>content := ''vidi''\<rparr>, quote3]"
    by (simp add: client_write_def c0 save_def store0_rows ne)
  have run0: "committed (run_call (SaveCall quote2 quote2 None) db0) = store0"
    by (simp add: client_write_def c0 save_def)
  have a: "update env0 2 \<lparr>upd_content = Defined ''vidi''\<rparr> None db0
     = (Inr (Some (quote2\<lparr>content := ''vidi''\<rparr>)),
        db0\<lparr>in_flight := [SaveCall quote2 (quote2\<lparr>content := ''vidi''\<rparr>) None]\<rparr>)"
    and a': "settle (snd (update env0 2 \<lparr>upd_content = Defined ''vidi''\<rparr> None db0))
               = run_call (SaveCall quote2 (quote2\<lparr>content := ''vidi''\<rparr>) None) db0"
    using update_changes_only_content [OF db0_store f, of "\<lparr>upd_content = Defined ''vidi''\<rparr>" env0] nf
    by auto
  have b: "fst (update env0 2 \<lparr>upd_content = Undefined\<rparr> None db0) = Inr (Some quote2)"
    and b': "settle (snd (update env0 2 \<lparr>upd_content = Undefined\<rparr> None db0))
               = run_call (SaveCall quote2 quote2 None) db0"
    using update_changes_only_content [OF db0_store f, of "\<lparr>upd_content = Undefined\<rparr>" env0] nf
    by auto
  have c: "fst (update env0 2 \<lparr>upd_content = Null\<rparr> (Some 0) db1) = Inr (Some quote2)"
    using update_changes_only_content [OF db1_store(1) f, of "\<lparr>upd_content = Null\<rparr>" env0]
    by auto
  show ?thesis
    unfolding a' b' by (intro conjI a b c run run0)
qed

section \<open>Inserting many quotes\<close>










section \<open>Random quotes are returned sorted\<close>








































section \<open>The content search\<close>

lemma split_seps_not_Nil: "split_seps s \<noteq> []"
  by (induction s rule: split_seps.induct) (auto split: list.splits)

lemma interleave_push: "interleave ((c # t) # ts) rs = c # interleave (t # ts) rs"
  by (cases rs) simp_all

lemma interleave_split_seps: "interleave (split_seps s) (sep_runs s) = s"
proof (induction s rule: split_seps.induct)
  case 1
  show ?case by simp
next
  case (2 c cs)
  show ?case
  proof (cases "is_sep c")
    case True
    with 2 have "interleave (split_seps (dropWhile is_sep cs)) (sep_runs (dropWhile is_sep cs))
                   = dropWhile is_sep cs"
      by simp
    with True show ?thesis by simp
  next
    case False
    obtain t ts where ts: "split_seps cs = t # ts"
      using split_seps_not_Nil [of cs] by (cases "split_seps cs") auto
    from False 2 have "interleave (split_seps cs) (sep_runs cs) = cs" by simp
    with False ts show ?thesis by (simp add: interleave_push)
  qed
qed

lemma length_split_seps: "length (split_seps s) = Suc (length (sep_runs s))"
proof (induction s rule: split_seps.induct)
  case 1
  show ?case by simp
next
  case (2 c cs)
  show ?case
  proof (cases "is_sep c")
    case True
    with 2 show ?thesis by simp
  next
    case False
    obtain t ts where ts: "split_seps cs = t # ts"
      using split_seps_not_Nil [of cs] by (cases "split_seps cs") auto
    from False 2 have "length (split_seps cs) = Suc (length (sep_runs cs))" by simp
    with False ts show ?thesis by simp
  qed
qed

lemma sep_runs_are_runs: "r \<in> set (sep_runs s) \<Longrightarrow> r \<noteq> [] \<and> (\<forall>c \<in> set r. is_sep c)"
proof (induction s rule: sep_runs.induct)
  case 1
  then show ?case by simp
next
  case (2 c cs)
  show ?case
  proof (cases "is_sep c")
    case True
    with 2 show ?thesis by (auto dest: set_takeWhileD)
  next
    case False
    with 2 show ?thesis by simp
  qed
qed

lemma pieces_sep_free: "t \<in> set (split_seps s) \<Longrightarrow> \<forall>c \<in> set t. \<not> is_sep c"
proof (induction s arbitrary: t rule: split_seps.induct)
  case 1
  then show ?case by simp
next
  case (2 c cs)
  show ?case
  proof (cases "is_sep c")
    case True
    with 2 show ?thesis by auto
  next
    case False
    obtain u us where us: "split_seps cs = u # us"
      using split_seps_not_Nil [of cs] by (cases "split_seps cs") auto
    from 2(3) False us have "t = c # u \<or> t \<in> set us" by simp
    then show ?thesis
    proof
      assume "t = c # u"
      moreover have "\<forall>c \<in> set u. \<not> is_sep c" using 2(2) [OF False, of u] us by simp
      ultimately show ?thesis using False by simp
    next
      assume "t \<in> set us"
      then show ?thesis using 2(2) [OF False, of t] us by simp
    qed
  qed
qed

lemma dropWhile_start: "dropWhile P xs = [] \<or> \<not> P (hd (dropWhile P xs))"
  by (metis hd_dropWhile)

lemma inner_pieces:
  "(\<forall>t \<in> set (butlast (tl (split_seps s))). t \<noteq> []) \<and>
   (s = [] \<or> \<not> is_sep (hd s) \<longrightarrow> (\<forall>t \<in> set (butlast (split_seps s)). t \<noteq> []))"
proof (induction s rule: split_seps.induct)
  case 1
  show ?case by simp
next
  case (2 c cs)
  show ?case
  proof (cases "is_sep c")
    case True
    let ?d = "dropWhile is_sep cs"
    have "?d = [] \<or> \<not> is_sep (hd ?d)" by (rule dropWhile_start)
    with 2(1) [OF True] have "\<forall>t \<in> set (butlast (split_seps ?d)). t \<noteq> []" by blast
    with True show ?thesis by simp
  next
    case False
    obtain u us where us: "split_seps cs = u # us"
      using split_seps_not_Nil [of cs] by (cases "split_seps cs") auto
    from 2(2) [OF False] us have "\<forall>t \<in> set (butlast us). t \<noteq> []" by simp
    with False us show ?thesis by simp
  qed
qed

lemma splits_on_runs_split_seps: "splits_on_runs s (split_seps s)"
  unfolding splits_on_runs_def
  using interleave_split_seps [of s] length_split_seps [of s] sep_runs_are_runs [of _ s]
    pieces_sep_free [of _ s] inner_pieces [of s]
  by (intro exI [of _ "sep_runs s"]) blast

lemma run_then_rest:
  assumes "\<forall>x \<in> set r. P x" and "rest = [] \<or> \<not> P (hd rest)"
  shows "dropWhile P (r @ rest) = rest"
proof -
  have "dropWhile P (r @ rest) = dropWhile P rest"
    using assms(1) by (simp add: dropWhile_append)
  also have "\<dots> = rest"
    using assms(2) by (cases rest) auto
  finally show ?thesis .
qed

lemma interleave_start:
  assumes "length ts = Suc (length rs)"
    and "\<forall>t \<in> set ts. \<forall>c \<in> set t. \<not> is_sep c"
    and "\<forall>t \<in> set (butlast ts). t \<noteq> []"
  shows "interleave ts rs = [] \<or> \<not> is_sep (hd (interleave ts rs))"
proof (cases ts)
  case Nil
  with assms(1) show ?thesis by simp
next
  case (Cons t ts')
  show ?thesis
  proof (cases rs)
    case Nil
    with Cons assms(2) show ?thesis by (cases t) auto
  next
    case (Cons r rs')
    with \<open>ts = t # ts'\<close> assms(1) have "ts' \<noteq> []" by auto
    with \<open>ts = t # ts'\<close> assms(3) have "t \<noteq> []" by simp
    with \<open>ts = t # ts'\<close> Cons assms(2) show ?thesis by (cases t) auto
  qed
qed

lemma butlast_tl_subset: "set (butlast (tl xs)) \<subseteq> set (butlast xs)"
  by (cases xs) (auto simp: butlast_tl [symmetric] dest: in_set_butlastD)

lemma split_seps_unique_aux:
  assumes "interleave ts rs = s"
    and "length ts = Suc (length rs)"
    and "\<forall>r \<in> set rs. r \<noteq> [] \<and> (\<forall>c \<in> set r. is_sep c)"
    and "\<forall>t \<in> set ts. \<forall>c \<in> set t. \<not> is_sep c"
    and "\<forall>t \<in> set (butlast (tl ts)). t \<noteq> []"
  shows "ts = split_seps s"
  using assms
proof (induction s arbitrary: ts rs rule: split_seps.induct)
  case 1
  from "1.prems"(2) obtain t ts' where ts: "ts = t # ts'" by (cases ts) auto
  show ?case
  proof (cases rs)
    case Nil
    with ts "1.prems"(1,2) show ?thesis by simp
  next
    case (Cons r rs')
    with "1.prems"(3) have "r \<noteq> []" by simp
    with ts Cons "1.prems"(1) show ?thesis by simp
  qed
next
  case (2 c cs)
  from "2.prems"(2) obtain t ts' where ts: "ts = t # ts'" by (cases ts) auto
  have tfree: "\<forall>x \<in> set t. \<not> is_sep x" using "2.prems"(4) ts by simp
  show ?case
  proof (cases "is_sep c")
    case True
    have t: "t = []"
    proof (rule ccontr)
      assume "t \<noteq> []"
      then obtain x t0 where "t = x # t0" by (cases t) auto
      with ts "2.prems"(1) have "x = c" by (cases rs) simp_all
      with \<open>t = x # t0\<close> tfree True show False by simp
    qed
    from t ts "2.prems"(1) obtain r rs' where rs: "rs = r # rs'" by (cases rs) auto
    have r: "r \<noteq> []" "\<forall>x \<in> set r. is_sep x" using "2.prems"(3) rs by simp_all
    let ?rest = "interleave ts' rs'"
    have eq: "r @ ?rest = c # cs" using "2.prems"(1) ts rs t by simp
    have len: "length ts' = Suc (length rs')" using "2.prems"(2) ts rs by simp
    have free': "\<forall>t \<in> set ts'. \<forall>c \<in> set t. \<not> is_sep c" using "2.prems"(4) ts by simp
    have inner': "\<forall>t \<in> set (butlast ts'). t \<noteq> []" using "2.prems"(5) ts by simp
    have start: "?rest = [] \<or> \<not> is_sep (hd ?rest)"
      using len free' inner' by (rule interleave_start)
    have "dropWhile is_sep (r @ ?rest) = ?rest"
      using r(2) start by (rule run_then_rest)
    then have "dropWhile is_sep (c # cs) = ?rest" by (simp only: eq)
    with True have d: "interleave ts' rs' = dropWhile is_sep cs" by simp
    have runs': "\<forall>r \<in> set rs'. r \<noteq> [] \<and> (\<forall>c \<in> set r. is_sep c)"
      using "2.prems"(3) rs by simp
    have inner'': "\<forall>t \<in> set (butlast (tl ts')). t \<noteq> []"
      using inner' butlast_tl_subset [of ts'] by blast
    have "ts' = split_seps (dropWhile is_sep cs)"
      using True d len runs' free' inner'' by (rule "2.IH"(1))
    with True t ts show ?thesis by simp
  next
    case False
    have "t \<noteq> []"
    proof
      assume e: "t = []"
      show False
      proof (cases rs)
        case Nil
        with e ts "2.prems"(1) show False by simp
      next
        case (Cons r rs')
        with "2.prems"(3) have "r \<noteq> []" "\<forall>x \<in> set r. is_sep x" by simp_all
        then obtain y r0 where "r = y # r0" "is_sep y" by (cases r) auto
        with e ts Cons "2.prems"(1) False show False by simp
      qed
    qed
    then obtain x t0 where t: "t = x # t0" by (cases t) auto
    from "2.prems"(1) ts t have "c # cs = x # interleave (t0 # ts') rs"
      by (simp only: interleave_push)
    then have x: "x = c" and i: "interleave (t0 # ts') rs = cs" by simp_all
    have len: "length (t0 # ts') = Suc (length rs)" using "2.prems"(2) ts by simp
    have free': "\<forall>t \<in> set (t0 # ts'). \<forall>c \<in> set t. \<not> is_sep c"
      using "2.prems"(4) ts t by simp
    have inner': "\<forall>t \<in> set (butlast (tl (t0 # ts'))). t \<noteq> []"
      using "2.prems"(5) ts by simp
    have "t0 # ts' = split_seps cs"
      using False i len "2.prems"(3) free' inner' by (rule "2.IH"(2))
    then have "split_seps cs = t0 # ts'" by simp
    with False ts t x show ?thesis by simp
  qed
qed

lemma split_seps_unique: "splits_on_runs s ts \<Longrightarrow> ts = split_seps s"
  unfolding splits_on_runs_def by (elim exE conjE) (rule split_seps_unique_aux)

text \<open>
  C6. With a search string, \<^verbatim>\<open>queryContent\<close> adds one raw clause: a boolean-mode
  full-text match on the content against the pieces of the string, each followed by
  \<^verbatim>\<open>*\<close>, joined by commas. The pieces are the one split of the string on runs of white
  space, commas and semicolons. The query then keeps the rows the database accepts for
  exactly this text. Without a search string (undefined or null) the query is unchanged.
\<close>

theorem queryContent_keywords:
  "queryContent q Undefined = q \<and> queryContent q Null = q \<and>
   queryContent q (Defined s) =
     q @ [WhereRaw (''MATCH (content) AGAINST('' @ [CHR 0x27] @
                    join '','' (map (\<lambda>w. w @ ''*'') (split_seps s)) @
                    [CHR 0x27] @ '' IN BOOLEAN MODE)'')] \<and>
   splits_on_runs s (split_seps s) \<and>
   (\<forall>ts. splits_on_runs s ts \<longrightarrow> ts = split_seps s) \<and>
   exec raw st (queryContent q (Defined s)) =
     filter (raw (''MATCH (content) AGAINST('' @ [CHR 0x27] @
                    join '','' (map (\<lambda>w. w @ ''*'') (split_seps s)) @
                    [CHR 0x27] @ '' IN BOOLEAN MODE)'')) (exec raw st q)"
proof (intro conjI allI impI)
  show "queryContent q Undefined = q" "queryContent q Null = q"
    by (simp_all add: queryContent_def)
  show "queryContent q (Defined s) =
     q @ [WhereRaw (''MATCH (content) AGAINST('' @ [CHR 0x27] @
                    join '','' (map (\<lambda>w. w @ ''*'') (split_seps s)) @
                    [CHR 0x27] @ '' IN BOOLEAN MODE)'')]"
    by (simp add: queryContent_def match_against_def keywords_of_def)
  show "splits_on_runs s (split_seps s)"
    by (rule splits_on_runs_split_seps)
  show "ts = split_seps s" if "splits_on_runs s ts" for ts
    using that by (rule split_seps_unique)
  show "exec raw st (queryContent q (Defined s)) =
     filter (raw (''MATCH (content) AGAINST('' @ [CHR 0x27] @
                    join '','' (map (\<lambda>w. w @ ''*'') (split_seps s)) @
                    [CHR 0x27] @ '' IN BOOLEAN MODE)'')) (exec raw st q)"
    by (simp add: queryContent_def match_against_def keywords_of_def exec_append query_sat_fun)
qed

theorem queryContent_keywords_witness:
  "split_seps ''carpe  diem;veni'' = [''carpe'', ''diem'', ''veni''] \<and>
   splits_on_runs ''carpe  diem;veni'' [''carpe'', ''diem'', ''veni''] \<and>
   queryContent [] (Defined ''carpe  diem;veni'') =
     [WhereRaw (''MATCH (content) AGAINST('' @ [CHR 0x27] @ ''carpe*,diem*,veni*'' @
                [CHR 0x27] @ '' IN BOOLEAN MODE)'')] \<and>
   split_seps '' a,'' = ['''', ''a'', '''']"
proof -
  have sp: "split_seps ''carpe  diem;veni'' = [''carpe'', ''diem'', ''veni'']"
    by (simp add: is_sep_def)
  have sp2: "split_seps '' a,'' = ['''', ''a'', '''']"
    by (simp add: is_sep_def)
  note k = queryContent_keywords [of "[]" "''carpe  diem;veni''" "raw_sql env0" store0]
  have a: "queryContent [] (Defined ''carpe  diem;veni'') =
     [] @ [WhereRaw (''MATCH (content) AGAINST('' @ [CHR 0x27] @
                    join '','' (map (\<lambda>w. w @ ''*'') (split_seps ''carpe  diem;veni'')) @
                    [CHR 0x27] @ '' IN BOOLEAN MODE)'')]"
    by (rule k [THEN conjunct2, THEN conjunct2, THEN conjunct1])
  have b: "splits_on_runs ''carpe  diem;veni'' (split_seps ''carpe  diem;veni'')"
    by (rule k [THEN conjunct2, THEN conjunct2, THEN conjunct2, THEN conjunct1])
  have c: "queryContent [] (Defined ''carpe  diem;veni'') =
     [WhereRaw (''MATCH (content) AGAINST('' @ [CHR 0x27] @ ''carpe*,diem*,veni*'' @
                [CHR 0x27] @ '' IN BOOLEAN MODE)'')]"
    unfolding a sp by simp
  from b have b': "splits_on_runs ''carpe  diem;veni'' [''carpe'', ''diem'', ''veni'']"
    unfolding sp .
  show ?thesis
    by (intro conjI sp sp2 b' c)
qed

end
